theory Spec2Isabelle
  imports Main "HOL-Library.AList" "HOL-Library.Multiset" "HOL-Library.Char_ord"
    "HOL-Library.List_Lexorder"
begin

section \<open>Python values and exceptions\<close>

text \<open>
  The values \<^verbatim>\<open>json.load\<close> can produce. The scalars are the hashable ones; a list or a
  dict is unhashable, so testing it for membership in a Python set raises
  \<^verbatim>\<open>TypeError\<close>. A float is kept as the text \<^verbatim>\<open>str\<close> gives for it: the
  program only formats floats and compares them with strings. A dict is an association
  list read with \<open>map_of\<close>; its keys are strings, as in every JSON object.
\<close>

datatype atom = ANone | ABool bool | AInt int | AFloat string | AStr string

datatype json = JAtom atom | JList "json list" | JDict "(string \<times> json) list"

datatype exc_class =
  FileNotFoundError | PermissionError | IsADirectoryError | NotADirectoryError
  | FileExistsError | ShutilError | JSONDecodeError | UnicodeDecodeError | ValueError
  | TypeError | IndexError

text \<open>An exception is its class and its message (\<^verbatim>\<open>str(e)\<close>).\<close>

type_synonym py_exc = "exc_class \<times> string"

text \<open>
  \<^verbatim>\<open>isinstance(e, ValueError)\<close>: \<^verbatim>\<open>json.JSONDecodeError\<close> and
  \<^verbatim>\<open>UnicodeDecodeError\<close> are subclasses of \<^verbatim>\<open>ValueError\<close>.
\<close>

fun is_ValueError :: "exc_class \<Rightarrow> bool" where
  "is_ValueError ValueError = True"
| "is_ValueError JSONDecodeError = True"
| "is_ValueError UnicodeDecodeError = True"
| "is_ValueError _ = False"


subsection \<open>Formatting\<close>

definition digit_char :: "nat \<Rightarrow> char" where
  "digit_char d = ''0123456789'' ! d"

text \<open>\<^verbatim>\<open>str(n)\<close> for a non-negative integer: its decimal digits.\<close>

fun show_nat :: "nat \<Rightarrow> string" where
  "show_nat n = (if n < 10 then [digit_char n] else show_nat (n div 10) @ [digit_char (n mod 10)])"

declare show_nat.simps [simp del]

definition show_int :: "int \<Rightarrow> string" where
  "show_int i = (if i < 0 then ''-'' @ show_nat (nat (- i)) else show_nat (nat i))"

text \<open>\<^verbatim>\<open>str(x)\<close> of a scalar, as an f-string formats it.\<close>

fun py_str :: "atom \<Rightarrow> string" where
  "py_str ANone = ''None''"
| "py_str (ABool b) = (if b then ''True'' else ''False'')"
| "py_str (AInt i) = show_int i"
| "py_str (AFloat r) = r"
| "py_str (AStr s) = s"

section \<open>ConfigManager\<close>

definition DEFAULT_CONFIG :: json where
  "DEFAULT_CONFIG = JDict
     [(''src'', JAtom (AStr '''')),
      (''keep'', JAtom (AStr '''')),
      (''button_mappings'', JDict
         [(''left_click'', JAtom (AStr ''keep'')),
          (''right_click'', JAtom (AStr ''reject''))]),
      (''wheel_mappings'', JDict
         [(''wheel_up'', JAtom (AStr ''previous'')),
          (''wheel_down'', JAtom (AStr ''next''))]),
      (''options'', JDict
         [(''recursive_loading'', JAtom (ABool False))])]"

definition VALID_ACTIONS :: "string list" where
  "VALID_ACTIONS = [''keep'', ''reject'', ''next'', ''previous'', ''skip'', ''disabled'']"

text \<open>
  \<^verbatim>\<open>action not in self.VALID_ACTIONS\<close> for a scalar: one that is not a string equals
  no action name.
\<close>

fun not_in_VALID_ACTIONS :: "atom \<Rightarrow> bool" where
  "not_in_VALID_ACTIONS (AStr s) = (s \<notin> set VALID_ACTIONS)"
| "not_in_VALID_ACTIONS a = True"

text \<open>
  A list or a dict has no hash: looking it up in the set \<^verbatim>\<open>VALID_ACTIONS\<close> raises
  \<^verbatim>\<open>TypeError\<close>.
\<close>

definition unhashable :: "string \<Rightarrow> py_exc" where
  "unhashable ty = (TypeError, ''unhashable type: '' @ [CHR 0x27] @ ty @ [CHR 0x27])"

text \<open>
  The two loops of \<^verbatim>\<open>validate\<close> over the mapping keys. \<open>Inl\<close> is an exception,
  \<open>Inr (Some r)\<close> a \<^verbatim>\<open>return r\<close> from inside the loop, \<open>Inr None\<close> the loop running to
  its end. \<open>kind\<close> is the word of the message (\<^verbatim>\<open>button\<close> or \<^verbatim>\<open>wheel\<close>).
\<close>

fun check_mappings ::
  "string \<Rightarrow> (string \<times> json) list \<Rightarrow> string list \<Rightarrow> py_exc + (bool \<times> string) option" where
  "check_mappings kind m [] = Inr None"
| "check_mappings kind m (key # keys) =
     (case map_of m key of
        None \<Rightarrow> Inr (Some (False, ''Missing '' @ kind @ '' mapping: '' @ key))
      | Some (JList xs) \<Rightarrow> Inl (unhashable ''list'')
      | Some (JDict kvs) \<Rightarrow> Inl (unhashable ''dict'')
      | Some (JAtom action) \<Rightarrow>
          if not_in_VALID_ACTIONS action
          then Inr (Some (False,
                 ''Invalid action '' @ [CHR 0x27] @ py_str action @ [CHR 0x27] @ '' for '' @ key))
          else check_mappings kind m keys)"

text \<open>The loop over \<^verbatim>\<open>required_keys\<close>: the first key that is missing, if any.\<close>

fun first_missing :: "(string \<times> json) list \<Rightarrow> string list \<Rightarrow> string option" where
  "first_missing config [] = None"
| "first_missing config (key # keys) =
     (if map_of config key = None then Some key else first_missing config keys)"

definition required_keys :: "string list" where
  "required_keys = [''src'', ''keep'', ''button_mappings'', ''wheel_mappings'', ''options'']"

definition validate_options :: "json \<Rightarrow> bool \<times> string" where
  "validate_options opts =
     (case opts of
        JDict od \<Rightarrow>
          (case map_of od ''recursive_loading'' of
             None \<Rightarrow> (False, ''Missing option: recursive_loading'')
           | Some (JAtom (ABool b)) \<Rightarrow> (True, '''')
           | Some _ \<Rightarrow> (False, ''recursive_loading must be a boolean''))
      | _ \<Rightarrow> (False, ''options must be a dictionary''))"

definition validate_wheel :: "(string \<times> json) list \<Rightarrow> py_exc + bool \<times> string" where
  "validate_wheel config =
     (case the (map_of config ''wheel_mappings'') of
        JDict wm \<Rightarrow>
          (case check_mappings ''wheel'' wm [''wheel_up'', ''wheel_down''] of
             Inl e \<Rightarrow> Inl e
           | Inr (Some r) \<Rightarrow> Inr r
           | Inr None \<Rightarrow> Inr (validate_options (the (map_of config ''options''))))
      | _ \<Rightarrow> Inr (False, ''wheel_mappings must be a dictionary''))"

text \<open>
  \<^verbatim>\<open>ConfigManager.validate\<close>: \<open>Inr (is_valid, error_message)\<close> when it returns, \<open>Inl\<close>
  when it raises. The lookups \<open>the (map_of config k)\<close> stand after the loop over
  \<open>required_keys\<close> has found every key present.
\<close>

definition validate :: "json \<Rightarrow> py_exc + bool \<times> string" where
  "validate config =
     (case config of
        JDict d \<Rightarrow>
          if map_of d ''src'' \<noteq> None \<and> map_of d ''keep'' \<noteq> None
               \<and> map_of d ''button_mappings'' = None
          then Inr (True, '''')
          else (case first_missing d required_keys of
             Some key \<Rightarrow> Inr (False, ''Missing required key: '' @ key)
           | None \<Rightarrow>
               (case the (map_of d ''button_mappings'') of
                  JDict bm \<Rightarrow>
                    (case check_mappings ''button'' bm [''left_click'', ''right_click''] of
                       Inl e \<Rightarrow> Inl e
                     | Inr (Some r) \<Rightarrow> Inr r
                     | Inr None \<Rightarrow> validate_wheel d)
                | _ \<Rightarrow> Inr (False, ''button_mappings must be a dictionary'')))
      | _ \<Rightarrow> Inr (False, ''Config must be a dictionary''))"

subsection \<open>The settings file\<close>

text \<open>
  What the program sees of the settings file. \<open>Absent\<close>: \<^verbatim>\<open>os.path.exists\<close> is false.
  \<open>Present r\<close>: the file exists and \<open>r\<close> is what \<^verbatim>\<open>open\<close> followed by
  \<^verbatim>\<open>json.load\<close> gives, the parsed document or the exception raised (the file cannot
  be opened, or its text is not JSON).
\<close>

datatype disk_file = Absent | Present "py_exc + json"

text \<open>
  What the next write of the settings file meets. \<open>Written\<close>: \<^verbatim>\<open>open(..., 'w')\<close> and
  \<^verbatim>\<open>json.dump\<close> both succeed. \<open>OpenFails msg\<close>: \<^verbatim>\<open>open\<close> raises, with message
  \<open>msg\<close>, and the file is not touched. \<open>DumpFails msg left\<close>: \<^verbatim>\<open>open\<close> succeeds, which
  empties the file, and \<^verbatim>\<open>json.dump\<close> (or closing the file) raises with message
  \<open>msg\<close>; the file keeps a proper prefix of the text, which is not JSON, and \<open>left\<close> is
  the message of the \<^verbatim>\<open>JSONDecodeError\<close> a later \<^verbatim>\<open>json.load\<close> of it raises.
\<close>

datatype write_outcome = Written | OpenFails string | DumpFails string string

text \<open>
  \<open>printed\<close> collects the lines printed, \<open>warnings\<close> the message boxes shown, \<open>config\<close>
  is the attribute \<^verbatim>\<open>self.config\<close>.
\<close>

record config_world =
  settings_file :: disk_file
  next_write :: write_outcome
  printed :: "string list"
  warnings :: "string list"
  config :: "json option"

text \<open>A call returns a value and the world it leaves, or raises and leaves a world.\<close>

type_synonym 'a result = "py_exc \<times> config_world + 'a \<times> config_world"

text \<open>
  \<^verbatim>\<open>ConfigManager.save\<close>. \<^verbatim>\<open>validate\<close> is called outside the \<^verbatim>\<open>try\<close>; the
  \<^verbatim>\<open>except Exception\<close> covers \<^verbatim>\<open>open\<close>, \<^verbatim>\<open>json.dump\<close> and the assignment to
  \<^verbatim>\<open>self.config\<close>, which is reached only after the write.
\<close>

definition save :: "json \<Rightarrow> config_world \<Rightarrow> bool result" where
  "save cfg w =
     (case validate cfg of
        Inl e \<Rightarrow> Inl (e, w)
      | Inr (is_valid, error_msg) \<Rightarrow>
          if \<not> is_valid
          then Inr (False, w\<lparr>printed := printed w @ [''Cannot save invalid config: '' @ error_msg]\<rparr>)
          else (case next_write w of
                  Written \<Rightarrow>
                    Inr (True, w\<lparr>settings_file := Present (Inr cfg), config := Some cfg\<rparr>)
                | OpenFails msg \<Rightarrow>
                    Inr (False, w\<lparr>printed := printed w @ [''Failed to save settings: '' @ msg]\<rparr>)
                | DumpFails msg left \<Rightarrow>
                    Inr (False, w\<lparr>settings_file := Present (Inl (JSONDecodeError, left)),
                                  printed := printed w @ [''Failed to save settings: '' @ msg]\<rparr>)))"

text \<open>\<^verbatim>\<open>old_config.get(key, "")\<close>.\<close>

definition dict_get :: "(string \<times> json) list \<Rightarrow> string \<Rightarrow> json \<Rightarrow> json" where
  "dict_get d key dflt = (case map_of d key of None \<Rightarrow> dflt | Some v \<Rightarrow> v)"

text \<open>\<^verbatim>\<open>d[key] = v\<close> on a dict.\<close>

definition dict_set :: "json \<Rightarrow> string \<Rightarrow> json \<Rightarrow> json" where
  "dict_set j key v = (case j of JDict d \<Rightarrow> JDict (AList.update key v d) | _ \<Rightarrow> j)"

text \<open>
  \<^verbatim>\<open>ConfigManager.migrate\<close>, on the dict \<^verbatim>\<open>load\<close> passes after \<^verbatim>\<open>validate\<close>
  accepted it. The result of \<^verbatim>\<open>self.save\<close> is dropped, as in the source.
\<close>

definition migrate :: "(string \<times> json) list \<Rightarrow> config_world \<Rightarrow> json result" where
  "migrate old_config w =
     (if map_of old_config ''button_mappings'' \<noteq> None then Inr (JDict old_config, w)
      else
        let w1 = w\<lparr>printed := printed w @ [''Migrating config from v1 to v2 format...'']\<rparr>;
            new_config = dict_set (dict_set DEFAULT_CONFIG ''src''
                            (dict_get old_config ''src'' (JAtom (AStr ''''))))
                            ''keep'' (dict_get old_config ''keep'' (JAtom (AStr '''')))
        in (case save new_config w1 of
              Inl ew \<Rightarrow> Inl ew
            | Inr (saved, w2) \<Rightarrow> Inr (new_config, w2)))"

text \<open>The body of the \<^verbatim>\<open>try\<close> of \<^verbatim>\<open>load\<close>.\<close>

definition load_body :: "py_exc + json \<Rightarrow> config_world \<Rightarrow> json result" where
  "load_body r w =
     (case r of
        Inl e \<Rightarrow> Inl (e, w)
      | Inr data \<Rightarrow>
          (case validate data of
             Inl e \<Rightarrow> Inl (e, w)
           | Inr (is_valid, error_msg) \<Rightarrow>
               if is_valid
               then (case data of
                       JDict d \<Rightarrow> migrate d w
                     | _ \<Rightarrow> Inl ((TypeError, ''argument is not iterable''), w))
               else Inl ((ValueError, ''Invalid config schema: '' @ error_msg), w)))"

text \<open>
  \<^verbatim>\<open>ConfigManager.load\<close>. The handler is
  \<^verbatim>\<open>except (FileNotFoundError, json.JSONDecodeError, ValueError)\<close>; any other exception
  leaves \<^verbatim>\<open>load\<close>.
\<close>

definition load :: "config_world \<Rightarrow> json result" where
  "load w =
     (case settings_file w of
        Absent \<Rightarrow> Inr (DEFAULT_CONFIG, w)
      | Present r \<Rightarrow>
          (case load_body r w of
             Inl ((cls, msg), w1) \<Rightarrow>
               if cls = FileNotFoundError \<or> is_ValueError cls
               then Inr (DEFAULT_CONFIG,
                      w1\<lparr>printed := printed w1 @ [''Config error: '' @ msg @ ''. Using defaults.''],
                         warnings := warnings w1 @ [''Could not load settings. Using defaults.'']\<rparr>)
               else Inl ((cls, msg), w1)
           | Inr res \<Rightarrow> Inr res))"

section \<open>Paths\<close>

text \<open>
  The functions of \<^verbatim>\<open>posixpath\<close> the program calls, on strings, with \<^verbatim>\<open>/\<close> as the
  separator.
\<close>

definition startswith :: "string \<Rightarrow> string \<Rightarrow> bool" where
  "startswith s pre = (take (length pre) s = pre)"

definition endswith :: "string \<Rightarrow> string \<Rightarrow> bool" where
  "endswith s suf = (length suf \<le> length s \<and> drop (length s - length suf) s = suf)"

text \<open>
  \<^verbatim>\<open>os.path.join(a, b)\<close>: an absolute \<open>b\<close> replaces \<open>a\<close>; otherwise \<open>b\<close> is appended,
  after a separator unless \<open>a\<close> is empty or ends with one.
\<close>

definition os_path_join :: "string \<Rightarrow> string \<Rightarrow> string" where
  "os_path_join a b =
     (if startswith b ''/'' then b
      else if a = [] \<or> endswith a ''/'' then a @ b
      else a @ ''/'' @ b)"

text \<open>\<^verbatim>\<open>p.split('/')\<close>.\<close>

fun split_sep :: "string \<Rightarrow> string list" where
  "split_sep [] = [[]]"
| "split_sep (c # cs) =
     (if c = CHR ''/'' then [] # split_sep cs
      else (case split_sep cs of [] \<Rightarrow> [[c]] | x # xs \<Rightarrow> (c # x) # xs))"

text \<open>\<^verbatim>\<open>'/'.join(comps)\<close>.\<close>

fun join_sep :: "string list \<Rightarrow> string" where
  "join_sep [] = []"
| "join_sep [x] = x"
| "join_sep (x # y # ys) = x @ ''/'' @ join_sep (y # ys)"

text \<open>
  \<^verbatim>\<open>os.path.normpath\<close>. POSIX keeps two leading slashes apart from one, and three or
  more are one.
\<close>

definition initial_slashes :: "string \<Rightarrow> nat" where
  "initial_slashes p =
     (if startswith p ''/''
      then (if startswith p ''//'' \<and> \<not> startswith p ''///'' then 2 else 1)
      else 0)"

text \<open>One round of the loop of \<^verbatim>\<open>normpath\<close> over the components.\<close>

definition norm_step :: "nat \<Rightarrow> string list \<Rightarrow> string \<Rightarrow> string list" where
  "norm_step slashes new_comps component =
     (if component = [] \<or> component = ''.'' then new_comps
      else if component \<noteq> ''..'' \<or> (slashes = 0 \<and> new_comps = [])
                \<or> (new_comps \<noteq> [] \<and> last new_comps = ''..'')
      then new_comps @ [component]
      else if new_comps \<noteq> [] then butlast new_comps
      else new_comps)"

definition os_path_normpath :: "string \<Rightarrow> string" where
  "os_path_normpath p =
     (if p = [] then ''.''
      else
        let slashes = initial_slashes p;
            comps = foldl (norm_step slashes) [] (split_sep p);
            path = replicate slashes (CHR ''/'') @ join_sep comps
        in if path = [] then ''.'' else path)"

text \<open>
  \<^verbatim>\<open>os.path.abspath\<close>; \<open>cwd\<close> is what \<^verbatim>\<open>os.getcwd()\<close> returns.
\<close>

definition os_path_abspath :: "string \<Rightarrow> string \<Rightarrow> string" where
  "os_path_abspath cwd p =
     os_path_normpath (if startswith p ''/'' then p else os_path_join cwd p)"

text \<open>
  \<^verbatim>\<open>os.path.commonprefix\<close> of two lists of components: their longest common prefix.
\<close>

fun commonprefix :: "'a list \<Rightarrow> 'a list \<Rightarrow> 'a list" where
  "commonprefix (x # xs) (y # ys) = (if x = y then x # commonprefix xs ys else [])"
| "commonprefix xs ys = []"

text \<open>
  \<^verbatim>\<open>os.path.relpath(path, start)\<close>: it raises \<^verbatim>\<open>ValueError\<close> on an empty \<open>path\<close>.
\<close>

definition os_path_relpath :: "string \<Rightarrow> string \<Rightarrow> string \<Rightarrow> py_exc + string" where
  "os_path_relpath cwd path start =
     (if path = [] then Inl (ValueError, ''no path specified'')
      else
        let start_list = filter (\<lambda>x. x \<noteq> []) (split_sep (os_path_abspath cwd start));
            path_list = filter (\<lambda>x. x \<noteq> []) (split_sep (os_path_abspath cwd path));
            i = length (commonprefix start_list path_list);
            rel_list = replicate (length start_list - i) ''..'' @ drop i path_list
        in if rel_list = [] then Inr ''.''
           else Inr (foldl os_path_join (hd rel_list) (tl rel_list)))"

section \<open>RecursiveScanner\<close>

record image_info =
  filename :: string
  relative_path :: string
  full_path :: string

definition VALID_EXTENSIONS :: "string list" where
  "VALID_EXTENSIONS = [''.png'', ''.jpg'', ''.jpeg'', ''.bmp'', ''.webp'']"

text \<open>
  \<^verbatim>\<open>str.lower\<close> on the ASCII letters. No character outside ASCII lowers to a letter of
  an extension, so the test below reads the same as Python's.
\<close>

definition lower_char :: "char \<Rightarrow> char" where
  "lower_char c =
     (if CHR ''A'' \<le> c \<and> c \<le> CHR ''Z'' then char_of (of_char c + (32 :: nat)) else c)"

definition is_valid_image :: "string \<Rightarrow> bool" where
  "is_valid_image fname = list_ex (endswith (map lower_char fname)) VALID_EXTENSIONS"

subsection \<open>The directory tree the scanner reads\<close>

text \<open>
  What is on disk under a name: a regular file (or a link to one), something that is
  neither a file nor a directory (a broken link, a socket), a directory with its entries
  in the order the operating system enumerates them, a directory that may not be read,
  or a symbolic link to a directory.
\<close>

datatype entry =
  File | Special | Dir "(string \<times> entry) list" | NoAccess | DirLink "(string \<times> entry) list"

fun is_dir :: "entry \<Rightarrow> bool" where
  "is_dir (Dir es) = True"
| "is_dir NoAccess = True"
| "is_dir (DirLink es) = True"
| "is_dir e = False"

fun is_link :: "entry \<Rightarrow> bool" where
  "is_link (DirLink es) = True"
| "is_link e = False"

text \<open>
  \<^verbatim>\<open>os.listdir(root_dir)\<close>, with the entry each name stands for. \<open>None\<close> is a path with
  nothing under it; the empty path names nothing.
\<close>

definition errno_msg :: "string \<Rightarrow> string \<Rightarrow> string" where
  "errno_msg what path = what @ '': '' @ [CHR 0x27] @ path @ [CHR 0x27]"

definition os_listdir :: "string \<Rightarrow> entry option \<Rightarrow> py_exc + (string \<times> entry) list" where
  "os_listdir root_dir node =
     (if root_dir = [] then Inl (FileNotFoundError, errno_msg ''[Errno 2] No such file or directory'' root_dir)
      else (case node of
        None \<Rightarrow> Inl (FileNotFoundError, errno_msg ''[Errno 2] No such file or directory'' root_dir)
      | Some (Dir es) \<Rightarrow> Inr es
      | Some (DirLink es) \<Rightarrow> Inr es
      | Some NoAccess \<Rightarrow> Inl (PermissionError, errno_msg ''[Errno 13] Permission denied'' root_dir)
      | Some e \<Rightarrow> Inl (NotADirectoryError, errno_msg ''[Errno 20] Not a directory'' root_dir)))"

text \<open>
  \<^verbatim>\<open>_scan_flat\<close>: the records and the lines printed, or the exception that leaves it.
  \<^verbatim>\<open>os.path.isfile\<close> of the joined path is asked of the entry listed under the name.
\<close>

definition scan_flat :: "string \<Rightarrow> entry option \<Rightarrow> py_exc + image_info list \<times> string list" where
  "scan_flat root_dir node =
     (case os_listdir root_dir node of
        Inr es \<Rightarrow>
          Inr (map (\<lambda>(fname, e).
                 \<lparr>filename = fname, relative_path = [], full_path = os_path_join root_dir fname\<rparr>)
               (filter (\<lambda>(fname, e). e = File \<and> is_valid_image fname) es), [])
      | Inl (cls, msg) \<Rightarrow>
          if cls = FileNotFoundError \<or> cls = PermissionError
          then Inr ([], [''Error scanning directory '' @ root_dir @ '': '' @ msg])
          else Inl (cls, msg))"

text \<open>
  \<^verbatim>\<open>os.walk\<close>, top down, with \<^verbatim>\<open>onerror=None\<close> and \<^verbatim>\<open>followlinks=False\<close>: one triple
  \<open>(dirpath, dirnames, filenames)\<close> for each directory visited. A directory that
  \<^verbatim>\<open>scandir\<close> cannot read yields nothing: the error is dropped, not raised. The caller's
  loop body removes the links from \<open>dirnames\<close> in place before the walk goes down, and
  the walk itself goes down no link.
\<close>

fun walk :: "string \<Rightarrow> entry \<Rightarrow> (string \<times> string list \<times> string list) list"
  and walk_dirs :: "string \<Rightarrow> (string \<times> entry) list \<Rightarrow> (string \<times> string list \<times> string list) list" where
  "walk dirpath (Dir es) =
     (dirpath,
      map fst (filter (\<lambda>(d, e). is_dir e \<and> \<not> is_link e) es),
      map fst (filter (\<lambda>(f, e). \<not> is_dir e) es))
       # walk_dirs dirpath es"
| "walk dirpath File = []"
| "walk dirpath Special = []"
| "walk dirpath NoAccess = []"
| "walk dirpath (DirLink es) = []"
| "walk_dirs dirpath [] = []"
| "walk_dirs dirpath ((d, e) # es) =
     (if is_dir e \<and> \<not> is_link e then walk (os_path_join dirpath d) e else [])
       @ walk_dirs dirpath es"

text \<open>The walk from the top: a link given as the top is followed.\<close>

definition os_walk :: "string \<Rightarrow> entry option \<Rightarrow> (string \<times> string list \<times> string list) list" where
  "os_walk root_dir node =
     (if root_dir = [] then []
      else (case node of
        Some (Dir es) \<Rightarrow> walk root_dir (Dir es)
      | Some (DirLink es) \<Rightarrow> walk root_dir (Dir es)
      | _ \<Rightarrow> []))"

text \<open>The record \<^verbatim>\<open>_scan_recursive\<close> appends for one file name of one triple.\<close>

definition record_for :: "string \<Rightarrow> string \<Rightarrow> string \<Rightarrow> string \<Rightarrow> py_exc + image_info" where
  "record_for cwd root_dir dirpath fname =
     (case os_path_relpath cwd dirpath root_dir of
        Inl e \<Rightarrow> Inl e
      | Inr rel_path \<Rightarrow>
          Inr \<lparr>filename = fname,
               relative_path = (if rel_path = ''.'' then [] else rel_path),
               full_path = os_path_join dirpath fname\<rparr>)"

text \<open>A loop whose rounds may raise: the first exception ends it.\<close>

fun collect :: "('e + 'a) list \<Rightarrow> 'e + 'a list" where
  "collect [] = Inr []"
| "collect (Inl e # rs) = Inl e"
| "collect (Inr x # rs) = (case collect rs of Inl e \<Rightarrow> Inl e | Inr xs \<Rightarrow> Inr (x # xs))"

text \<open>
  \<^verbatim>\<open>_scan_recursive\<close>. Nothing in the \<^verbatim>\<open>try\<close> of its loop body raises
  \<^verbatim>\<open>PermissionError\<close>, so nothing is ever printed.
\<close>

definition scan_recursive ::
  "string \<Rightarrow> string \<Rightarrow> entry option \<Rightarrow> py_exc + image_info list \<times> string list" where
  "scan_recursive cwd root_dir node =
     (case collect (concat (map (\<lambda>(dirpath, dirnames, filenames).
                map (record_for cwd root_dir dirpath) (filter is_valid_image filenames))
              (os_walk root_dir node))) of
        Inl e \<Rightarrow> Inl e
      | Inr results \<Rightarrow> Inr (results, []))"

definition scan ::
  "string \<Rightarrow> string \<Rightarrow> bool \<Rightarrow> entry option \<Rightarrow> py_exc + image_info list \<times> string list" where
  "scan cwd root_dir recursive node =
     (if recursive then scan_recursive cwd root_dir node else scan_flat root_dir node)"

text \<open>
  The list \<^verbatim>\<open>load_images_start\<close> stores in \<^verbatim>\<open>self.image_files\<close>: the scan, then
  \<^verbatim>\<open>sort(key=lambda x: x["full_path"])\<close>, a stable sort on strings compared character
  by character.
\<close>

definition scanned_images ::
  "string \<Rightarrow> string \<Rightarrow> bool \<Rightarrow> entry option \<Rightarrow> py_exc + image_info list" where
  "scanned_images cwd root_dir recursive node =
     (case scan cwd root_dir recursive node of
        Inl e \<Rightarrow> Inl e
      | Inr (results, lines) \<Rightarrow> Inr (sort_key full_path results))"

section \<open>RapidCullerApp\<close>

subsection \<open>The files a session moves\<close>

text \<open>
  What a path names while images are moved: a regular file, with whether the image
  library can decode it and its bytes, or a directory. \<open>entries\<close> lists the paths that
  exist; \<open>denied\<close> lists the paths the process may not create, rename or replace.
\<close>

datatype node = RegFile bool string | Directory

record fs =
  entries :: "(string \<times> node) list"
  denied :: "string list"

definition lookup :: "fs \<Rightarrow> string \<Rightarrow> node option" where
  "lookup d p = map_of (entries d) p"

definition os_path_exists :: "fs \<Rightarrow> string \<Rightarrow> bool" where
  "os_path_exists d p = (lookup d p \<noteq> None)"

definition os_path_isdir :: "fs \<Rightarrow> string \<Rightarrow> bool" where
  "os_path_isdir d p = (lookup d p = Some Directory)"

text \<open>
  \<^verbatim>\<open>os.makedirs(p, exist_ok=True)\<close>. Of the directories it creates, the one named
  \<open>p\<close> is recorded.
\<close>

definition os_makedirs :: "fs \<Rightarrow> string \<Rightarrow> py_exc + fs" where
  "os_makedirs d p =
     (case lookup d p of
        Some Directory \<Rightarrow> Inr d
      | Some (RegFile b c) \<Rightarrow> Inl (FileExistsError, errno_msg ''[Errno 17] File exists'' p)
      | None \<Rightarrow>
          if p \<in> set (denied d)
          then Inl (PermissionError, errno_msg ''[Errno 13] Permission denied'' p)
          else Inr (d\<lparr>entries := entries d @ [(p, Directory)]\<rparr>))"

text \<open>\<^verbatim>\<open>p.rfind(c)\<close>: the index of the last \<open>c\<close> in \<open>p\<close>, or \<open>-1\<close>.\<close>

definition rfind :: "char \<Rightarrow> string \<Rightarrow> int" where
  "rfind c p =
     (case filter (\<lambda>i. p ! i = c) (rev [0..<length p]) of [] \<Rightarrow> - 1 | i # is \<Rightarrow> int i)"

text \<open>\<^verbatim>\<open>shutil._basename\<close>: the last component, trailing separators dropped first.\<close>

definition basename :: "string \<Rightarrow> string" where
  "basename p =
     (let q = rev (dropWhile (\<lambda>c. c = CHR ''/'') (rev p)) in drop (nat (rfind (CHR ''/'') q + 1)) q)"

text \<open>
  \<^verbatim>\<open>os.rename\<close>, as \<^verbatim>\<open>shutil.move\<close> uses it: the node moves to \<open>dst\<close>, replacing what
  was there.
\<close>

definition os_rename :: "fs \<Rightarrow> string \<Rightarrow> string \<Rightarrow> node \<Rightarrow> py_exc + fs" where
  "os_rename d src dst nd =
     (if src \<in> set (denied d) \<or> dst \<in> set (denied d)
      then Inl (PermissionError, errno_msg ''[Errno 13] Permission denied'' dst)
      else Inr (d\<lparr>entries := AList.update dst nd (AList.delete src (entries d))\<rparr>))"

text \<open>
  \<^verbatim>\<open>shutil.move(src, dst)\<close>: into \<open>dst\<close> when it is a directory (an error when the name
  is taken there), onto \<open>dst\<close> otherwise.
\<close>

definition shutil_move :: "fs \<Rightarrow> string \<Rightarrow> string \<Rightarrow> py_exc + fs" where
  "shutil_move d src dst =
     (case lookup d src of
        None \<Rightarrow> Inl (FileNotFoundError, errno_msg ''[Errno 2] No such file or directory'' src)
      | Some nd \<Rightarrow>
          if os_path_isdir d dst
          then (let real_dst = os_path_join dst (basename src)
                in if os_path_exists d real_dst
                   then Inl (ShutilError,
                          ''Destination path '' @ [CHR 0x27] @ real_dst @ [CHR 0x27] @ '' already exists'')
                   else os_rename d src real_dst nd)
          else os_rename d src dst nd)"

text \<open>
  \<^verbatim>\<open>os.path.splitext\<close>: the extension starts at the last dot of the last component,
  unless only dots stand before it there.
\<close>

definition os_path_splitext :: "string \<Rightarrow> string \<times> string" where
  "os_path_splitext p =
     (let sepIndex = rfind (CHR ''/'') p; dotIndex = rfind (CHR ''.'') p
      in if dotIndex > sepIndex
            \<and> list_ex (\<lambda>i. p ! i \<noteq> CHR ''.'') [nat (sepIndex + 1)..<nat dotIndex]
         then (take (nat dotIndex) p, drop (nat dotIndex) p)
         else (p, []))"

subsection \<open>The collision loop\<close>

text \<open>The path the loop tries in the round where \<^verbatim>\<open>counter\<close> has the value \<open>k\<close>.\<close>

definition candidate :: "string \<Rightarrow> string \<Rightarrow> string \<Rightarrow> nat \<Rightarrow> string" where
  "candidate final_dest base ext k = os_path_join final_dest (base @ ''_'' @ show_nat k @ ext)"

text \<open>
  The loop ends because the paths that exist are finitely many and the candidates differ
  from one another: decimal numerals can be read back.
\<close>

definition read_nat :: "string \<Rightarrow> nat" where
  "read_nat s = foldl (\<lambda>a c. 10 * a + (of_char c - 48)) 0 s"

lemma of_char_digit: "n < 10 \<Longrightarrow> of_char (digit_char n) = (48 + n :: nat)"
proof -
  have "\<forall>m \<in> set [0..<10]. of_char (digit_char m) = (48 + m :: nat)"
    by code_simp
  then show "n < 10 \<Longrightarrow> of_char (digit_char n) = (48 + n :: nat)" by simp
qed

lemma read_show_nat: "read_nat (show_nat n) = n"
proof (induction n rule: show_nat.induct)
  case (1 n)
  show ?case
  proof (cases "n < 10")
    case True
    then show ?thesis by (simp add: show_nat.simps [of n] read_nat_def of_char_digit)
  next
    case False
    have "read_nat (show_nat n) = 10 * read_nat (show_nat (n div 10)) + (of_char (digit_char (n mod 10)) - 48)"
      using False by (simp add: show_nat.simps [of n] read_nat_def)
    also have "\<dots> = 10 * (n div 10) + n mod 10"
      using False "1.IH" by (simp add: of_char_digit)
    finally show ?thesis by simp
  qed
qed

lemma show_nat_inj: "show_nat n = show_nat m \<Longrightarrow> n = m"
  by (metis read_show_nat)

lemma candidate_inj:
  assumes "candidate fd base ext j = candidate fd base ext k"
  shows "j = k"
proof -
  let ?x = "\<lambda>n. base @ ''_'' @ show_nat n @ ext"
  have st: "startswith (?x j) ''/'' = startswith (?x k) ''/''"
    by (cases base) (simp_all add: startswith_def)
  have "?x j = ?x k"
    using assms st by (auto simp: candidate_def os_path_join_def split: if_splits)
  then show ?thesis using show_nat_inj by simp
qed

text \<open>How many of the existing paths are candidates the loop has still to try.\<close>

definition pending :: "fs \<Rightarrow> string \<Rightarrow> string \<Rightarrow> string \<Rightarrow> nat \<Rightarrow> nat" where
  "pending d fd base ext c =
     length (filter (\<lambda>p. \<exists>k\<ge>c. p = candidate fd base ext k) (map fst (entries d)))"

lemma filter_stronger: "(\<And>x. Q x \<Longrightarrow> P x) \<Longrightarrow> filter Q xs = filter Q (filter P xs)"
  by (induction xs) auto

lemma later_candidate:
  "(\<exists>k\<ge>Suc c. p = candidate fd base ext k) \<Longrightarrow> (\<exists>k\<ge>c. p = candidate fd base ext k)"
  using Suc_leD by blast

lemma pending_filter:
  "filter (\<lambda>p. \<exists>k\<ge>Suc c. p = candidate fd base ext k) xs
     = filter (\<lambda>p. \<exists>k\<ge>Suc c. p = candidate fd base ext k)
         (filter (\<lambda>p. \<exists>k\<ge>c. p = candidate fd base ext k) xs)"
  by (rule filter_stronger) (rule later_candidate)

lemma pending_mono: "pending d fd base ext (Suc c) \<le> pending d fd base ext c"
  unfolding pending_def by (subst pending_filter) (rule length_filter_le)

lemma pending_less:
  assumes "os_path_exists d (candidate fd base ext c)"
  shows "pending d fd base ext (Suc c) < pending d fd base ext c"
proof -
  let ?P = "\<lambda>p. \<exists>k\<ge>c. p = candidate fd base ext k"
  let ?Q = "\<lambda>p. \<exists>k\<ge>Suc c. p = candidate fd base ext k"
  let ?xs = "map fst (entries d)"
  from assms have "map_of (entries d) (candidate fd base ext c) \<noteq> None"
    by (simp add: os_path_exists_def lookup_def)
  then have "candidate fd base ext c \<in> set ?xs"
    by (simp add: map_of_eq_None_iff)
  moreover have "?P (candidate fd base ext c)" by blast
  ultimately have "candidate fd base ext c \<in> set (filter ?P ?xs)" by simp
  moreover have "\<not> ?Q (candidate fd base ext c)"
  proof
    assume "?Q (candidate fd base ext c)"
    then obtain k where "Suc c \<le> k" "candidate fd base ext c = candidate fd base ext k" by blast
    then show False using candidate_inj by fastforce
  qed
  ultimately have "length (filter ?Q (filter ?P ?xs)) < length (filter ?P ?xs)"
    by (rule length_filter_less)
  then show ?thesis unfolding pending_def by (subst pending_filter)
qed

text \<open>
  The loop \<^verbatim>\<open>while os.path.exists(dst_path)\<close> of \<^verbatim>\<open>move_and_advance\<close>, entered with
  \<^verbatim>\<open>counter = 1\<close>.
\<close>

function unique_dst :: "fs \<Rightarrow> string \<Rightarrow> string \<Rightarrow> string \<Rightarrow> string \<Rightarrow> nat \<Rightarrow> string" where
  "unique_dst d final_dest base ext dst_path counter =
     (if os_path_exists d dst_path
      then unique_dst d final_dest base ext (candidate final_dest base ext counter) (counter + 1)
      else dst_path)"
  by pat_completeness auto
termination
proof (relation "measure (\<lambda>(d, fd, base, ext, dst_path, c).
    2 * pending d fd base ext c + (if os_path_exists d dst_path then 1 else 0))")
  show "wf (measure (\<lambda>(d, fd, base, ext, dst_path, c).
    2 * pending d fd base ext c + (if os_path_exists d dst_path then 1 else 0)))"
    by simp
next
  fix d :: fs and final_dest base ext dst_path :: string and counter :: nat
  assume ex: "os_path_exists d dst_path"
  show "((d, final_dest, base, ext, candidate final_dest base ext counter, counter + 1),
         (d, final_dest, base, ext, dst_path, counter))
      \<in> measure (\<lambda>(d, fd, base, ext, dst_path, c).
          2 * pending d fd base ext c + (if os_path_exists d dst_path then 1 else 0))"
  proof (cases "os_path_exists d (candidate final_dest base ext counter)")
    case True
    then show ?thesis using ex pending_less [OF True] by simp
  next
    case False
    then show ?thesis using ex pending_mono [of d final_dest base ext counter] by simp
  qed
qed

declare unique_dst.simps [simp del]

subsection \<open>The session\<close>



text \<open>\<^verbatim>\<open>os.path.join(relative_path, filename) if relative_path else filename\<close>.\<close>

definition display_path :: "image_info \<Rightarrow> string" where
  "display_path info =
     (if relative_path info \<noteq> [] then os_path_join (relative_path info) (filename info)
      else filename info)"

text \<open>
  The first lines of the \<^verbatim>\<open>try\<close> of \<^verbatim>\<open>move_and_advance\<close>: the directory the file
  goes to, created when the record has a relative path, and the disk after that.
\<close>

definition make_final_dest :: "fs \<Rightarrow> string \<Rightarrow> image_info \<Rightarrow> py_exc + string \<times> fs" where
  "make_final_dest d destination info =
     (if relative_path info \<noteq> []
      then (let dest_subdir = os_path_join destination (relative_path info)
            in case os_makedirs d dest_subdir of
                 Inl e \<Rightarrow> Inl e
               | Inr d1 \<Rightarrow> Inr (dest_subdir, d1))
      else Inr (destination, d))"

text \<open>
  The body of the \<^verbatim>\<open>try\<close> of \<^verbatim>\<open>move_and_advance\<close>: the disk it leaves and the line
  it prints, or the exception raised and the disk at that moment.
\<close>

definition try_move :: "fs \<Rightarrow> string \<Rightarrow> image_info \<Rightarrow> py_exc \<times> fs + fs \<times> string" where
  "try_move d destination info =
     (case make_final_dest d destination info of
        Inl e \<Rightarrow> Inl (e, d)
      | Inr (final_dest, d1) \<Rightarrow>
          (let dst_path = os_path_join final_dest (filename info);
               (base, ext) = os_path_splitext (filename info);
               dst_path = unique_dst d1 final_dest base ext dst_path 1
           in case shutil_move d1 (full_path info) dst_path of
                Inl e \<Rightarrow> Inl (e, d1)
              | Inr d2 \<Rightarrow> Inr (d2, ''Moved '' @ display_path info @ '' to '' @ destination)))"










section \<open>Properties of the Config Store\<close>

text \<open>\<^verbatim>\<open>doc[key]\<close> of a document, \<open>None\<close> when the key is missing.\<close>

definition item :: "json \<Rightarrow> string \<Rightarrow> json option" where
  "item doc key = (case doc of JDict d \<Rightarrow> map_of d key | _ \<Rightarrow> None)"

text \<open>
  A settings file a user can write by hand: every key is present, and the left click is
  mapped to a JSON array instead of an action name.
\<close>

definition list_valued_doc :: json where
  "list_valued_doc = JDict
     [(''src'', JAtom (AStr '''')),
      (''keep'', JAtom (AStr '''')),
      (''button_mappings'', JDict
         [(''left_click'', JList []),
          (''right_click'', JAtom (AStr ''reject''))]),
      (''wheel_mappings'', JDict
         [(''wheel_up'', JAtom (AStr ''previous'')),
          (''wheel_down'', JAtom (AStr ''next''))]),
      (''options'', JDict
         [(''recursive_loading'', JAtom (ABool False))])]"

lemma validate_v1:
  "map_of d ''src'' = Some S \<Longrightarrow> map_of d ''keep'' = Some K
   \<Longrightarrow> map_of d ''button_mappings'' = None \<Longrightarrow> validate (JDict d) = Inr (True, '''')"
  by (simp add: validate_def)

lemma validate_defaults_with:
  "validate (JDict
     [(''src'', S), (''keep'', K),
      (''button_mappings'', JDict
         [(''left_click'', JAtom (AStr ''keep'')), (''right_click'', JAtom (AStr ''reject''))]),
      (''wheel_mappings'', JDict
         [(''wheel_up'', JAtom (AStr ''previous'')), (''wheel_down'', JAtom (AStr ''next''))]),
      (''options'', JDict [(''recursive_loading'', JAtom (ABool False))])])
   = Inr (True, '''')"
  by (simp add: validate_def required_keys_def validate_wheel_def validate_options_def
      VALID_ACTIONS_def)

text \<open>
  C1, as the code has it. A settings file in the v1 shape (keys \<open>src\<close> and \<open>keep\<close>, no
  \<open>button_mappings\<close>) is migrated by \<open>load\<close>: the document returned has the file's \<open>src\<close>
  and \<open>keep\<close>, the default \<open>button_mappings\<close>, \<open>wheel_mappings\<close> and \<open>options\<close>, and
  \<open>validate\<close> accepts it as a v2 document (it has the key \<open>button_mappings\<close>). \<open>load\<close>
  writes it to the settings file at once, and the file holds the migrated document when
  that write succeeds. \<open>save\<close> swallows a failure of the write: \<open>load\<close> still returns the
  migrated document, the failure is printed, and the file is left as it was when it
  cannot be opened for writing, or emptied and partly written when the failure comes
  after the file was opened.
\<close>

theorem load_migrates_v1:
  assumes "settings_file w = Present (Inr (JDict d))"
    and "map_of d ''src'' = Some S" and "map_of d ''keep'' = Some K"
    and "map_of d ''button_mappings'' = None"
  shows "\<exists>new w'. load w = Inr (new, w')
           \<and> item new ''src'' = Some S \<and> item new ''keep'' = Some K
           \<and> item new ''button_mappings'' = item DEFAULT_CONFIG ''button_mappings''
           \<and> item new ''wheel_mappings'' = item DEFAULT_CONFIG ''wheel_mappings''
           \<and> item new ''options'' = item DEFAULT_CONFIG ''options''
           \<and> item new ''button_mappings'' \<noteq> None
           \<and> validate new = Inr (True, '''')
           \<and> (case next_write w of
                 Written \<Rightarrow> settings_file w' = Present (Inr new) \<and> printed w' =
                   printed w @ [''Migrating config from v1 to v2 format...'']
               | OpenFails msg \<Rightarrow> settings_file w' = settings_file w \<and> printed w' =
                   printed w @ [''Migrating config from v1 to v2 format...'',
                     ''Failed to save settings: '' @ msg]
               | DumpFails msg left \<Rightarrow>
                   settings_file w' = Present (Inl (JSONDecodeError, left)) \<and> printed w' =
                   printed w @ [''Migrating config from v1 to v2 format...'',
                     ''Failed to save settings: '' @ msg])"
proof -
  define new where "new = JDict
     [(''src'', S), (''keep'', K),
      (''button_mappings'', JDict
         [(''left_click'', JAtom (AStr ''keep'')), (''right_click'', JAtom (AStr ''reject''))]),
      (''wheel_mappings'', JDict
         [(''wheel_up'', JAtom (AStr ''previous'')), (''wheel_down'', JAtom (AStr ''next''))]),
      (''options'', JDict [(''recursive_loading'', JAtom (ABool False))])]"
  define w1 where "w1 = w\<lparr>printed := printed w @ [''Migrating config from v1 to v2 format...'']\<rparr>"
  have new_eq: "dict_set (dict_set DEFAULT_CONFIG ''src'' (dict_get d ''src'' (JAtom (AStr ''''))))
      ''keep'' (dict_get d ''keep'' (JAtom (AStr ''''))) = new"
    using assms(2,3) by (simp add: dict_set_def dict_get_def DEFAULT_CONFIG_def new_def)
  have vnew: "validate new = Inr (True, '''')"
    unfolding new_def by (rule validate_defaults_with)
  have vold: "validate (JDict d) = Inr (True, '''')"
    using assms(2-4) by (rule validate_v1)
  have mig: "migrate d w =
      (case save new w1 of Inl ew \<Rightarrow> Inl ew | Inr (saved, w2) \<Rightarrow> Inr (new, w2))"
    using assms(4) by (simp add: migrate_def new_eq Let_def w1_def)
  have ld: "load w = (case migrate d w of
        Inl ((cls, msg), w1) \<Rightarrow>
          if cls = FileNotFoundError \<or> is_ValueError cls
          then Inr (DEFAULT_CONFIG,
                 w1\<lparr>printed := printed w1 @ [''Config error: '' @ msg @ ''. Using defaults.''],
                    warnings := warnings w1 @ [''Could not load settings. Using defaults.'']\<rparr>)
          else Inl ((cls, msg), w1)
      | Inr res \<Rightarrow> Inr res)"
    using assms(1) vold by (simp add: load_def load_body_def)
  have items: "item new ''src'' = Some S" "item new ''keep'' = Some K"
    "item new ''button_mappings'' = item DEFAULT_CONFIG ''button_mappings''"
    "item new ''wheel_mappings'' = item DEFAULT_CONFIG ''wheel_mappings''"
    "item new ''options'' = item DEFAULT_CONFIG ''options''"
    "item new ''button_mappings'' \<noteq> None"
    by (simp_all add: item_def new_def DEFAULT_CONFIG_def)
  show ?thesis
  proof (cases "next_write w")
    case Written
    then have "load w = Inr (new, w1\<lparr>settings_file := Present (Inr new), config := Some new\<rparr>)"
      by (simp add: ld mig save_def vnew w1_def)
    with items vnew Written show ?thesis by (simp add: w1_def)
  next
    case (OpenFails msg)
    then have "load w =
        Inr (new, w1\<lparr>printed := printed w1 @ [''Failed to save settings: '' @ msg]\<rparr>)"
      by (simp add: ld mig save_def vnew w1_def)
    with items vnew OpenFails show ?thesis by (simp add: w1_def)
  next
    case (DumpFails msg left)
    then have "load w =
        Inr (new, w1\<lparr>settings_file := Present (Inl (JSONDecodeError, left)),
                      printed := printed w1 @ [''Failed to save settings: '' @ msg]\<rparr>)"
      by (simp add: ld mig save_def vnew w1_def)
    with items vnew DumpFails show ?thesis by (simp add: w1_def)
  qed
qed

theorem load_migrates_v1_witness:
  "\<exists>new w'. load \<lparr>settings_file = Present (Inr (JDict
        [(''src'', JAtom (AStr ''/pics'')), (''keep'', JAtom (AStr ''/good''))])),
        next_write = Written, printed = [], warnings = [], config = None\<rparr> = Inr (new, w')
     \<and> item new ''src'' = Some (JAtom (AStr ''/pics''))
     \<and> item new ''keep'' = Some (JAtom (AStr ''/good''))
     \<and> item new ''button_mappings'' = item DEFAULT_CONFIG ''button_mappings''
     \<and> item new ''wheel_mappings'' = item DEFAULT_CONFIG ''wheel_mappings''
     \<and> item new ''options'' = item DEFAULT_CONFIG ''options''
     \<and> item new ''button_mappings'' \<noteq> None
     \<and> validate new = Inr (True, '''')
     \<and> settings_file w' = Present (Inr new)
     \<and> printed w' = [''Migrating config from v1 to v2 format...'']"
  using load_migrates_v1 [of
      "\<lparr>settings_file = Present (Inr (JDict
        [(''src'', JAtom (AStr ''/pics'')), (''keep'', JAtom (AStr ''/good''))])),
        next_write = Written, printed = [], warnings = [], config = None\<rparr>"
      "[(''src'', JAtom (AStr ''/pics'')), (''keep'', JAtom (AStr ''/good''))]"
      "JAtom (AStr ''/pics'')" "JAtom (AStr ''/good'')"]
  by simp

text \<open>
  C1, as the claim states it, fails: it says the migrated form is persisted during
  \<open>load\<close> for every v1 document. With a settings file that cannot be opened for writing
  (a read-only file), \<open>load\<close> returns the migrated document and the file still holds the
  v1 document.
\<close>

theorem load_v1_not_persisted_counterexample:
  "load \<lparr>settings_file = Present (Inr (JDict
        [(''src'', JAtom (AStr ''/pics'')), (''keep'', JAtom (AStr ''/good''))])),
        next_write = OpenFails ''[Errno 13] Permission denied'', printed = [], warnings = [],
        config = None\<rparr>
   = Inr (JDict
        [(''src'', JAtom (AStr ''/pics'')), (''keep'', JAtom (AStr ''/good'')),
         (''button_mappings'', JDict
            [(''left_click'', JAtom (AStr ''keep'')), (''right_click'', JAtom (AStr ''reject''))]),
         (''wheel_mappings'', JDict
            [(''wheel_up'', JAtom (AStr ''previous'')), (''wheel_down'', JAtom (AStr ''next''))]),
         (''options'', JDict [(''recursive_loading'', JAtom (ABool False))])],
      \<lparr>settings_file = Present (Inr (JDict
        [(''src'', JAtom (AStr ''/pics'')), (''keep'', JAtom (AStr ''/good''))])),
        next_write = OpenFails ''[Errno 13] Permission denied'',
        printed = [''Migrating config from v1 to v2 format...'',
                   ''Failed to save settings: [Errno 13] Permission denied''],
        warnings = [], config = None\<rparr>)"
  by (simp add: load_def load_body_def validate_def migrate_def save_def dict_set_def
      dict_get_def DEFAULT_CONFIG_def required_keys_def validate_wheel_def validate_options_def
      VALID_ACTIONS_def Let_def)

text \<open>
  C3. \<open>load\<close> does raise to its caller: on the settings file \<open>list_valued_doc\<close>, which
  fails the schema (an action is a JSON array), \<open>validate\<close> raises \<^verbatim>\<open>TypeError\<close>, the
  handler of \<open>load\<close> does not catch it, and neither a warning nor the defaults result.
\<close>

theorem load_raises_on_list_action:
  "load \<lparr>settings_file = Present (Inr list_valued_doc), next_write = Written, printed = [],
          warnings = [], config = None\<rparr>
   = Inl (unhashable ''list'',
          \<lparr>settings_file = Present (Inr list_valued_doc), next_write = Written, printed = [],
           warnings = [], config = None\<rparr>)"
  by (simp add: load_def load_body_def validate_def list_valued_doc_def required_keys_def
      unhashable_def)

text \<open>
  C6. On \<open>list_valued_doc\<close>, a v2 document whose left click is mapped to a value outside
  the six action names, \<open>validate\<close> returns no reason: it raises \<^verbatim>\<open>TypeError\<close>.
\<close>

theorem validate_raises_on_list_action:
  "validate list_valued_doc = Inl (unhashable ''list'')"
  by (simp add: validate_def list_valued_doc_def required_keys_def)

section \<open>Properties of the Directory Scanner\<close>

text \<open>
  A name of a directory entry, as \<^verbatim>\<open>os.listdir\<close> and \<^verbatim>\<open>os.walk\<close> return it: not
  empty, without a separator, and neither \<^verbatim>\<open>.\<close> nor \<^verbatim>\<open>..\<close>.
\<close>


definition name_ok :: "string \<Rightarrow> bool" where
  "name_ok n = (n \<noteq> [] \<and> CHR ''/'' \<notin> set n \<and> n \<noteq> ''.'' \<and> n \<noteq> ''..'')"

definition with_sep :: "string \<Rightarrow> string" where
  "with_sep p = (if p = [] \<or> endswith p ''/'' then p else p @ ''/'')"

lemma endswith_slash: "endswith p ''/'' \<longleftrightarrow> p \<noteq> [] \<and> last p = CHR ''/''"
proof (cases p rule: rev_cases)
  case Nil
  then show ?thesis by (simp add: endswith_def)
next
  case (snoc xs x)
  then show ?thesis by (auto simp: endswith_def)
qed

lemma startswith_slash: "startswith b ''/'' \<longleftrightarrow> b \<noteq> [] \<and> hd b = CHR ''/''"
  by (cases b) (auto simp: startswith_def)

lemma join_name: "name_ok n \<Longrightarrow> os_path_join p n = with_sep p @ n"
  by (cases n) (auto simp: os_path_join_def with_sep_def startswith_slash name_ok_def)

lemma with_sep_shape: "with_sep p = [] \<or> last (with_sep p) = CHR ''/''"
  by (auto simp: with_sep_def endswith_slash)

lemma split_unique:
  assumes "u @ f = v @ g" and "CHR ''/'' \<notin> set f" and "CHR ''/'' \<notin> set g"
    and "u = [] \<or> last u = CHR ''/''" and "v = [] \<or> last v = CHR ''/''"
  shows "u = v \<and> f = g"
proof -
  from assms(1) obtain w where w: "(u = v @ w \<and> w @ f = g) \<or> (u @ w = v \<and> f = w @ g)"
    by (auto simp: append_eq_append_conv2)
  have "w = []"
  proof (rule ccontr)
    assume ne: "w \<noteq> []"
    from w show False
    proof
      assume a: "u = v @ w \<and> w @ f = g"
      with ne have "last u = last w" by simp
      moreover from a ne have "u \<noteq> []" by simp
      ultimately have "last w = CHR ''/''" using assms(4) by simp
      then have "CHR ''/'' \<in> set w" using ne last_in_set by metis
      with a assms(3) show False by auto
    next
      assume a: "u @ w = v \<and> f = w @ g"
      with ne have "last v = last w" by auto
      moreover from a ne have "v \<noteq> []" by auto
      ultimately have "last w = CHR ''/''" using assms(5) by simp
      then have "CHR ''/'' \<in> set w" using ne last_in_set by metis
      with a assms(2) show False by auto
    qed
  qed
  with w show ?thesis by auto
qed

lemma with_sep_eq:
  assumes "with_sep p = with_sep q"
  shows "p = q \<or> p = q @ ''/'' \<or> q = p @ ''/''"
  using assms by (auto simp: with_sep_def split: if_splits)

lemma length_join_name: "name_ok n \<Longrightarrow> length p < length (os_path_join p n)"
  by (auto simp: join_name with_sep_def name_ok_def)

lemma length_foldl_join:
  "\<forall>n \<in> set ns. name_ok n \<Longrightarrow> length p \<le> length (foldl os_path_join p ns)"
proof (induction ns arbitrary: p)
  case Nil
  then show ?case by simp
next
  case (Cons n ns)
  have "length p < length (os_path_join p n)" using Cons.prems by (simp add: length_join_name)
  moreover have "length (os_path_join p n) \<le> length (foldl os_path_join (os_path_join p n) ns)"
    using Cons by simp
  ultimately show ?case by simp
qed

lemma foldl_join_eq_root:
  assumes "\<forall>n \<in> set ns. name_ok n" and "foldl os_path_join p ns = p"
  shows "ns = []"
proof (cases ns)
  case Nil
  then show ?thesis .
next
  case (Cons n ms)
  have "length p < length (os_path_join p n)" using assms(1) Cons by (simp add: length_join_name)
  moreover have "length (os_path_join p n) \<le> length (foldl os_path_join (os_path_join p n) ms)"
    using assms(1) Cons by (intro length_foldl_join) simp
  ultimately show ?thesis using assms(2) Cons by simp
qed

lemma last_join_name: "name_ok n \<Longrightarrow> last (os_path_join p n) \<noteq> CHR ''/''"
proof -
  assume n: "name_ok n"
  then have "n \<noteq> []" and "CHR ''/'' \<notin> set n" by (simp_all add: name_ok_def)
  then have "last n \<noteq> CHR ''/''" using last_in_set by metis
  then show ?thesis using n \<open>n \<noteq> []\<close> by (simp add: join_name)
qed

lemma foldl_join_slash_end:
  assumes "\<forall>n \<in> set ns. name_ok n" and "endswith (foldl os_path_join p ns) ''/''"
  shows "ns = []"
proof (cases ns rule: rev_cases)
  case Nil
  then show ?thesis .
next
  case (snoc ms n)
  then have "last (foldl os_path_join p ns) \<noteq> CHR ''/''"
    using assms(1) by (simp add: last_join_name)
  with assms(2) show ?thesis by (simp add: endswith_slash)
qed

text \<open>The directory paths a walk from \<open>p\<close> can reach.\<close>
definition below :: "string \<Rightarrow> string \<Rightarrow> bool" where
  "below p d = (\<exists>ns. (\<forall>n \<in> set ns. name_ok n) \<and> d = foldl os_path_join p ns)"

lemma below_not_longer_slash:
  assumes "below p d" and "below p d'" shows "d \<noteq> d' @ ''/''"
proof
  assume eq: "d = d' @ ''/''"
  from assms obtain ns ms where ns: "\<forall>n \<in> set ns. name_ok n" "d = foldl os_path_join p ns"
    and ms: "\<forall>n \<in> set ms. name_ok n" "d' = foldl os_path_join p ms"
    by (auto simp: below_def)
  from eq have "endswith d ''/''" by (simp add: endswith_slash)
  with ns have "ns = []" using foldl_join_slash_end by blast
  with ns have "d = p" by simp
  moreover have "length p \<le> length d'" using ms length_foldl_join by blast
  ultimately have "length (d' @ ''/'') \<le> length d'" using eq by metis
  then show False by simp
qed

lemma join_below_inj:
  assumes "below p d" and "below p d'" and "name_ok f" and "name_ok g"
    and "os_path_join d f = os_path_join d' g"
  shows "d = d' \<and> f = g"
proof -
  have "with_sep d @ f = with_sep d' @ g" using assms(3-5) by (simp add: join_name)
  then have "with_sep d = with_sep d' \<and> f = g"
    using assms(3,4) with_sep_shape by (intro split_unique) (auto simp: name_ok_def)
  moreover have "d \<noteq> d' @ ''/''" "d' \<noteq> d @ ''/''"
    using assms(1,2) below_not_longer_slash by blast+
  ultimately show ?thesis using with_sep_eq by blast
qed


fun names_ok :: "entry \<Rightarrow> bool" and entries_ok :: "(string \<times> entry) list \<Rightarrow> bool" where
  "names_ok (Dir es) = entries_ok es"
| "names_ok (DirLink es) = entries_ok es"
| "names_ok File = True"
| "names_ok Special = True"
| "names_ok NoAccess = True"
| "entries_ok [] = True"
| "entries_ok ((n, e) # es) = (name_ok n \<and> names_ok e \<and> entries_ok es)"

inductive same_tree :: "entry \<Rightarrow> entry \<Rightarrow> bool"
  and same_entries :: "(string \<times> entry) list \<Rightarrow> (string \<times> entry) list \<Rightarrow> bool" where
  same_File: "same_tree File File"
| same_Special: "same_tree Special Special"
| same_NoAccess: "same_tree NoAccess NoAccess"
| same_Dir: "same_entries es es' \<Longrightarrow> same_tree (Dir es) (Dir es')"
| same_DirLink: "same_entries es es' \<Longrightarrow> same_tree (DirLink es) (DirLink es')"
| same_Nil: "same_entries [] []"
| same_Cons: "same_tree e e' \<Longrightarrow> same_entries es es' \<Longrightarrow> same_entries ((n, e) # es) ((n, e') # es')"
| same_swap: "same_entries (a # b # es) (b # a # es)"
| same_trans: "same_entries es es' \<Longrightarrow> same_entries es' es'' \<Longrightarrow> same_entries es es''"

lemma below_refl: "below p p"
  unfolding below_def by (rule exI [of _ "[]"]) simp

lemma below_join: "below r p \<Longrightarrow> name_ok n \<Longrightarrow> below r (os_path_join p n)"
proof -
  assume "below r p" and n: "name_ok n"
  then obtain ns where "\<forall>n \<in> set ns. name_ok n" "p = foldl os_path_join r ns"
    by (auto simp: below_def)
  then have "(\<forall>m \<in> set (ns @ [n]). name_ok m) \<and> os_path_join p n = foldl os_path_join r (ns @ [n])"
    using n by simp
  then show ?thesis unfolding below_def by blast
qed

lemma entries_ok_iff: "entries_ok es \<longleftrightarrow> (\<forall>(n, e) \<in> set es. name_ok n \<and> names_ok e)"
  by (induction es) auto

lemma walk_below:
  "names_ok e \<Longrightarrow> below r p \<Longrightarrow> (dp, dn, fns) \<in> set (walk p e)
     \<Longrightarrow> below r dp \<and> (\<forall>f \<in> set fns. name_ok f)"
  "entries_ok es \<Longrightarrow> below r p \<Longrightarrow> (dp, dn, fns) \<in> set (walk_dirs p es)
     \<Longrightarrow> below r dp \<and> (\<forall>f \<in> set fns. name_ok f)"
proof (induction p e and p es rule: walk_walk_dirs.induct)
  case (1 dirpath es)
  from "1.prems"(3) have "(dp, dn, fns) = (dirpath, map fst (filter (\<lambda>(d, e). is_dir e \<and> \<not> is_link e) es),
      map fst (filter (\<lambda>(f, e). \<not> is_dir e) es)) \<or> (dp, dn, fns) \<in> set (walk_dirs dirpath es)"
    by simp
  then show ?case
  proof
    assume "(dp, dn, fns) = (dirpath, map fst (filter (\<lambda>(d, e). is_dir e \<and> \<not> is_link e) es),
      map fst (filter (\<lambda>(f, e). \<not> is_dir e) es))"
    then have "dp = dirpath" "set fns \<subseteq> fst ` set es" by auto
    moreover have "\<forall>n \<in> fst ` set es. name_ok n" using "1.prems"(1) by (auto simp: entries_ok_iff)
    ultimately show ?thesis using "1.prems"(2) by auto
  next
    assume "(dp, dn, fns) \<in> set (walk_dirs dirpath es)"
    then show ?thesis using "1.IH" "1.prems" by simp
  qed
next
  case (7 dirpath d e es)
  from "7.prems"(3) have "((is_dir e \<and> \<not> is_link e) \<and> (dp, dn, fns) \<in> set (walk (os_path_join dirpath d) e))
      \<or> (dp, dn, fns) \<in> set (walk_dirs dirpath es)"
    by (auto split: if_splits)
  then show ?case
  proof
    assume a: "(is_dir e \<and> \<not> is_link e) \<and> (dp, dn, fns) \<in> set (walk (os_path_join dirpath d) e)"
    have "below r (os_path_join dirpath d)" using "7.prems" by (simp add: below_join)
    then show ?thesis using "7.IH"(1) a "7.prems"(1) by simp
  next
    assume "(dp, dn, fns) \<in> set (walk_dirs dirpath es)"
    then show ?thesis using "7.IH"(2) "7.prems" by simp
  qed
qed simp_all


definition rounds ::
  "string \<Rightarrow> string \<Rightarrow> (string \<times> string list \<times> string list) list \<Rightarrow> (py_exc + image_info) list" where
  "rounds cwd root_dir trips =
     concat (map (\<lambda>(dirpath, dirnames, filenames).
                map (record_for cwd root_dir dirpath) (filter is_valid_image filenames)) trips)"

lemma rounds_simps:
  "rounds cwd r [] = []"
  "rounds cwd r ((dp, dn, fns) # ts) =
     map (record_for cwd r dp) (filter is_valid_image fns) @ rounds cwd r ts"
  "rounds cwd r (ts @ us) = rounds cwd r ts @ rounds cwd r us"
  by (simp_all add: rounds_def)

lemma same_tree_rounds:
  "same_tree e e' \<Longrightarrow>
     (\<forall>p. mset (rounds cwd r (walk p e)) = mset (rounds cwd r (walk p e')))
     \<and> is_dir e = is_dir e' \<and> is_link e = is_link e' \<and> (e = File \<longleftrightarrow> e' = File)"
  "same_entries es es' \<Longrightarrow>
     (\<forall>p. mset (rounds cwd r (walk_dirs p es)) = mset (rounds cwd r (walk_dirs p es')))
     \<and> mset (map fst (filter (\<lambda>(f, e). \<not> is_dir e) es))
         = mset (map fst (filter (\<lambda>(f, e). \<not> is_dir e) es'))
     \<and> mset (map fst (filter (\<lambda>(f, e). e = File \<and> is_valid_image f) es))
         = mset (map fst (filter (\<lambda>(f, e). e = File \<and> is_valid_image f) es'))"
proof (induction rule: same_tree_same_entries.inducts)
  case (same_Dir es es')
  have "mset (map (record_for cwd r p) (filter is_valid_image (map fst (filter (\<lambda>(f, e). \<not> is_dir e) es))))
      = mset (map (record_for cwd r p) (filter is_valid_image (map fst (filter (\<lambda>(f, e). \<not> is_dir e) es'))))"
    for p
  proof -
    have "mset (map (record_for cwd r p) (filter is_valid_image xs))
        = image_mset (record_for cwd r p) (filter_mset is_valid_image (mset xs))" for xs
      by simp
    then show ?thesis using same_Dir.IH by metis
  qed
  then show ?case using same_Dir.IH by (simp add: rounds_simps)
next
  case (same_Cons e e' es es' n)
  then show ?case by (auto simp: rounds_simps)
next
  case (same_swap a b es)
  show ?case by (cases a; cases b) (auto simp: rounds_simps)
qed (simp_all add: rounds_simps)


definition rel_of :: "string \<Rightarrow> string \<Rightarrow> string \<Rightarrow> string" where
  "rel_of cwd root_dir dirpath =
     (case os_path_relpath cwd dirpath root_dir of
        Inl e \<Rightarrow> []
      | Inr rel_path \<Rightarrow> if rel_path = ''.'' then [] else rel_path)"

lemma record_for_Inr:
  "dp \<noteq> [] \<Longrightarrow> record_for cwd r dp f =
     Inr \<lparr>filename = f, relative_path = rel_of cwd r dp, full_path = os_path_join dp f\<rparr>"
  by (simp add: record_for_def rel_of_def os_path_relpath_def Let_def)

lemma collect_all_Inr: "\<forall>x \<in> set rs. \<exists>y. x = Inr y \<Longrightarrow> collect rs = Inr (map projr rs)"
  by (induction rs rule: collect.induct) auto

lemma below_nonempty: "below r dp \<Longrightarrow> r \<noteq> [] \<Longrightarrow> dp \<noteq> []"
proof -
  assume "below r dp" and r: "r \<noteq> []"
  then obtain ns where "\<forall>n \<in> set ns. name_ok n" "dp = foldl os_path_join r ns"
    by (auto simp: below_def)
  then have "length r \<le> length dp" using length_foldl_join by blast
  with r show ?thesis by auto
qed

lemma os_walk_below:
  assumes "names_ok t" and "(dp, dn, fns) \<in> set (os_walk r (Some t))"
  shows "r \<noteq> [] \<and> below r dp \<and> (\<forall>f \<in> set fns. name_ok f)"
proof -
  from assms(2) have r: "r \<noteq> []" by (auto simp: os_walk_def split: if_splits)
  from assms(2) r obtain es where es: "t = Dir es \<or> t = DirLink es"
    and w: "(dp, dn, fns) \<in> set (walk r (Dir es))"
    by (cases t) (auto simp: os_walk_def)
  from es assms(1) have "names_ok (Dir es)" by auto
  then show ?thesis using walk_below(1) [OF _ below_refl w] r by simp
qed

lemma os_walk_same:
  assumes "same_tree t t'"
  shows "mset (rounds cwd r (os_walk r (Some t))) = mset (rounds cwd r (os_walk r (Some t')))"
  using assms
proof (cases rule: same_tree.cases)
  case (same_Dir es es')
  then have "same_tree (Dir es) (Dir es')" using same_tree_same_entries.same_Dir by simp
  then have "mset (rounds cwd r (walk r (Dir es))) = mset (rounds cwd r (walk r (Dir es')))"
    using same_tree_rounds(1) by blast
  then show ?thesis using same_Dir by (simp add: os_walk_def del: walk.simps)
next
  case (same_DirLink es es')
  then have "same_tree (Dir es) (Dir es')" using same_tree_same_entries.same_Dir by simp
  then have "mset (rounds cwd r (walk r (Dir es))) = mset (rounds cwd r (walk r (Dir es')))"
    using same_tree_rounds(1) by blast
  then show ?thesis using same_DirLink by (simp add: os_walk_def del: walk.simps)
qed (simp_all add: os_walk_def)

lemma rounds_elems:
  assumes "names_ok t" and "x \<in> set (rounds cwd r (os_walk r (Some t)))"
  shows "\<exists>dp f. below r dp \<and> name_ok f \<and>
      x = Inr \<lparr>filename = f, relative_path = rel_of cwd r dp, full_path = os_path_join dp f\<rparr>"
proof -
  from assms(2) obtain dp dn fns f where t: "(dp, dn, fns) \<in> set (os_walk r (Some t))"
    and f: "f \<in> set fns" and x: "x = record_for cwd r dp f"
    by (auto simp: rounds_def)
  from os_walk_below [OF assms(1) t] f have b: "r \<noteq> []" "below r dp" "name_ok f" by auto
  then have "dp \<noteq> []" using below_nonempty by blast
  then show ?thesis using b x record_for_Inr by blast
qed

lemma sort_key_perm_inj:
  fixes f :: "'a \<Rightarrow> 'b::linorder"
  assumes "mset xs = mset ys" and "\<And>x y. x \<in> set xs \<Longrightarrow> y \<in> set xs \<Longrightarrow> f x = f y \<Longrightarrow> x = y"
  shows "sort_key f xs = sort_key f ys"
  using assms by (intro sort_key_eq_sort_key) (auto simp: inj_on_def)

lemma scan_recursive_same:
  assumes "same_tree t t'" and "names_ok t"
  shows "scanned_images cwd r True (Some t) = scanned_images cwd r True (Some t')"
proof -
  let ?xs = "rounds cwd r (os_walk r (Some t))" and ?ys = "rounds cwd r (os_walk r (Some t'))"
  have m: "mset ?xs = mset ?ys" using assms(1) by (rule os_walk_same)
  then have s: "set ?xs = set ?ys" by (rule mset_eq_setD)
  have xin: "\<forall>x \<in> set ?xs. \<exists>y. x = Inr y" using rounds_elems [OF assms(2)] by blast
  with s have yin: "\<forall>x \<in> set ?ys. \<exists>y. x = Inr y" by simp
  have cx: "collect ?xs = Inr (map projr ?xs)" using xin by (rule collect_all_Inr)
  have cy: "collect ?ys = Inr (map projr ?ys)" using yin by (rule collect_all_Inr)
  have mm: "mset (map projr ?xs) = mset (map projr ?ys)" using m by (metis mset_map)
  have inj: "a = b" if "a \<in> set (map projr ?xs)" "b \<in> set (map projr ?xs)" "full_path a = full_path b" for a b
  proof -
    from that(1) obtain x where "x \<in> set ?xs" "a = projr x" by auto
    then obtain dp f where a: "below r dp" "name_ok f"
      "a = \<lparr>filename = f, relative_path = rel_of cwd r dp, full_path = os_path_join dp f\<rparr>"
      using rounds_elems [OF assms(2)] by fastforce
    from that(2) obtain y where "y \<in> set ?xs" "b = projr y" by auto
    then obtain dp' f' where b: "below r dp'" "name_ok f'"
      "b = \<lparr>filename = f', relative_path = rel_of cwd r dp', full_path = os_path_join dp' f'\<rparr>"
      using rounds_elems [OF assms(2)] by fastforce
    from that(3) a b have "os_path_join dp f = os_path_join dp' f'" by simp
    then have "dp = dp' \<and> f = f'" using a b join_below_inj by blast
    then show ?thesis using a b by simp
  qed
  have "sort_key full_path (map projr ?xs) = sort_key full_path (map projr ?ys)"
    using mm inj by (rule sort_key_perm_inj)
  then show ?thesis
    using cx cy by (simp add: scanned_images_def scan_def scan_recursive_def rounds_def)
qed

lemma listdir_same:
  assumes "same_tree t t'"
  shows "(\<exists>e. os_listdir r (Some t) = Inl e \<and> os_listdir r (Some t') = Inl e)
       \<or> (\<exists>es es'. os_listdir r (Some t) = Inr es \<and> os_listdir r (Some t') = Inr es'
            \<and> same_entries es es' \<and> (names_ok t \<longrightarrow> entries_ok es))"
  using assms by (cases rule: same_tree.cases) (auto simp: os_listdir_def)

definition flat_record :: "string \<Rightarrow> string \<Rightarrow> image_info" where
  "flat_record r fname = \<lparr>filename = fname, relative_path = [], full_path = os_path_join r fname\<rparr>"

definition flat_names :: "(string \<times> entry) list \<Rightarrow> string list" where
  "flat_names es = map fst (filter (\<lambda>(fname, e). e = File \<and> is_valid_image fname) es)"

lemma scan_flat_Inr:
  "os_listdir r node = Inr es \<Longrightarrow>
   scan_flat r node = Inr (map (flat_record r) (flat_names es), [])"
  by (simp add: scan_flat_def flat_names_def flat_record_def case_prod_unfold comp_def)

lemma flat_names_subset: "set (flat_names es) \<subseteq> fst ` set es"
  by (auto simp: flat_names_def)

lemma scan_flat_same:
  assumes "same_tree t t'" and "names_ok t"
  shows "scanned_images cwd r False (Some t) = scanned_images cwd r False (Some t')"
proof -
  from listdir_same [OF assms(1), of r] show ?thesis
  proof (elim disjE exE conjE)
    fix e assume "os_listdir r (Some t) = Inl e" "os_listdir r (Some t') = Inl e"
    then show ?thesis by (simp add: scanned_images_def scan_def scan_flat_def)
  next
    fix es es' assume l: "os_listdir r (Some t) = Inr es" "os_listdir r (Some t') = Inr es'"
      and se: "same_entries es es'" and ok: "names_ok t \<longrightarrow> entries_ok es"
    have "mset (flat_names es) = mset (flat_names es')"
      using same_tree_rounds(2) [OF se] unfolding flat_names_def by blast
    then have mm: "mset (map (flat_record r) (flat_names es)) = mset (map (flat_record r) (flat_names es'))"
      by (metis mset_map)
    have names: "\<forall>n \<in> set (flat_names es). name_ok n"
      using ok assms(2) flat_names_subset [of es] by (fastforce simp: entries_ok_iff)
    have inj: "a = b" if a: "a \<in> set (map (flat_record r) (flat_names es))"
      and b: "b \<in> set (map (flat_record r) (flat_names es))" and eq: "full_path a = full_path b" for a b
    proof -
      from a obtain n where n: "n \<in> set (flat_names es)" "a = flat_record r n" by auto
      from b obtain n' where n': "n' \<in> set (flat_names es)" "b = flat_record r n'" by auto
      have "name_ok n" "name_ok n'" using names n n' by auto
      moreover have "os_path_join r n = os_path_join r n'" using eq n n' by (simp add: flat_record_def)
      ultimately have "n = n'" using join_below_inj [OF below_refl below_refl] by blast
      then show ?thesis using n n' by simp
    qed
    have "sort_key full_path (map (flat_record r) (flat_names es))
        = sort_key full_path (map (flat_record r) (flat_names es'))"
      using mm inj by (rule sort_key_perm_inj)
    then show ?thesis using l by (simp add: scanned_images_def scan_def scan_flat_Inr)
  qed
qed

lemma scanned_sorted:
  "scanned_images cwd r recursive node = Inr images \<Longrightarrow> sorted (map full_path images)"
  by (auto simp: scanned_images_def split: sum.splits prod.splits)

text \<open>
  C2. The list the Session Controller stores after a scan is sorted ascending by
  \<open>full_path\<close>, and it does not depend on the order in which the operating system
  enumerates the directories: two trees that differ only in the order of their entries,
  at any depth, give the same list, in both modes. The names of the entries are what a
  file system allows (\<open>names_ok\<close>).
\<close>

theorem scanned_images_sorted_deterministic:
  assumes "same_tree t t'" and "names_ok t"
  shows "scanned_images cwd root_dir recursive (Some t) = scanned_images cwd root_dir recursive (Some t')
       \<and> (\<forall>images. scanned_images cwd root_dir recursive (Some t) = Inr images
             \<longrightarrow> sorted (map full_path images))"
  using assms scan_recursive_same scan_flat_same scanned_sorted by (cases recursive) auto

theorem scanned_images_sorted_deterministic_witness:
  "scanned_images ''/home/u'' ''/pics'' True
     (Some (Dir [(''b.png'', File), (''sub'', Dir [(''d.jpg'', File), (''c.jpg'', File)])]))
   = scanned_images ''/home/u'' ''/pics'' True
     (Some (Dir [(''sub'', Dir [(''c.jpg'', File), (''d.jpg'', File)]), (''b.png'', File)]))"
proof -
  have sub: "same_tree (Dir [(''d.jpg'', File), (''c.jpg'', File)])
      (Dir [(''c.jpg'', File), (''d.jpg'', File)])"
    by (intro same_Dir same_swap)
  have "same_entries [(''b.png'', File), (''sub'', Dir [(''d.jpg'', File), (''c.jpg'', File)])]
      [(''sub'', Dir [(''d.jpg'', File), (''c.jpg'', File)]), (''b.png'', File)]"
    by (rule same_swap)
  moreover have "same_entries [(''sub'', Dir [(''d.jpg'', File), (''c.jpg'', File)]), (''b.png'', File)]
      [(''sub'', Dir [(''c.jpg'', File), (''d.jpg'', File)]), (''b.png'', File)]"
    by (intro same_Cons sub same_File same_Nil)
  ultimately have "same_tree
      (Dir [(''b.png'', File), (''sub'', Dir [(''d.jpg'', File), (''c.jpg'', File)])])
      (Dir [(''sub'', Dir [(''c.jpg'', File), (''d.jpg'', File)]), (''b.png'', File)])"
    by (intro same_Dir) (rule same_trans)
  moreover have "names_ok (Dir [(''b.png'', File), (''sub'', Dir [(''d.jpg'', File), (''c.jpg'', File)])])"
    by (simp add: name_ok_def)
  ultimately show ?thesis
    using scanned_images_sorted_deterministic by blast
qed

text \<open>
  C7. In recursive mode a root that is missing, or that may not be read, gives the
  empty list and no line is printed: \<^verbatim>\<open>os.walk\<close> drops the error of \<^verbatim>\<open>scandir\<close>, and
  the \<^verbatim>\<open>except PermissionError\<close> of the loop body is never reached.
\<close>

theorem scan_recursive_root_error_silent:
  "scan cwd root_dir True None = Inr ([], [])
   \<and> scan cwd root_dir True (Some NoAccess) = Inr ([], [])"
  by (simp add: scan_def scan_recursive_def os_walk_def)

section \<open>Properties of the Session\<close>

subsection \<open>The collision loop\<close>

lemma unique_dst_free: "\<not> os_path_exists d p \<Longrightarrow> unique_dst d fd base ext p c = p"
  by (simp add: unique_dst.simps)

lemma unique_dst_first_free:
  "os_path_exists d p \<Longrightarrow>
     \<exists>k\<ge>c. unique_dst d fd base ext p c = candidate fd base ext k
        \<and> \<not> os_path_exists d (candidate fd base ext k)
        \<and> (\<forall>j. c \<le> j \<and> j < k \<longrightarrow> os_path_exists d (candidate fd base ext j))"
proof (induction d fd base ext p c rule: unique_dst.induct)
  case (1 d fd base ext p c)
  have step: "unique_dst d fd base ext p c = unique_dst d fd base ext (candidate fd base ext c) (c + 1)"
    using "1.prems" by (simp add: unique_dst.simps [of d fd base ext p c])
  show ?case
  proof (cases "os_path_exists d (candidate fd base ext c)")
    case False
    then have "unique_dst d fd base ext p c = candidate fd base ext c"
      using step by (simp add: unique_dst_free)
    with False show ?thesis by (intro exI [of _ c]) auto
  next
    case True
    from "1.IH" [OF "1.prems" True] obtain k where k: "c + 1 \<le> k"
      "unique_dst d fd base ext (candidate fd base ext c) (c + 1) = candidate fd base ext k"
      "\<not> os_path_exists d (candidate fd base ext k)"
      "\<forall>j. c + 1 \<le> j \<and> j < k \<longrightarrow> os_path_exists d (candidate fd base ext j)"
      by blast
    have "\<forall>j. c \<le> j \<and> j < k \<longrightarrow> os_path_exists d (candidate fd base ext j)"
    proof (intro allI impI)
      fix j assume j: "c \<le> j \<and> j < k"
      show "os_path_exists d (candidate fd base ext j)"
      proof (cases "j = c")
        case True
        then show ?thesis using \<open>os_path_exists d (candidate fd base ext c)\<close> by simp
      next
        case False
        then have "c + 1 \<le> j \<and> j < k" using j by simp
        then show ?thesis using k(4) by blast
      qed
    qed
    moreover have "c \<le> k" using k(1) by simp
    ultimately show ?thesis using k(2,3) step by (intro exI [of _ k]) simp
  qed
qed

lemma lookup_rename:
  "os_rename d src dst nd = Inr d2 \<Longrightarrow> lookup d2 = (lookup d)(src := None, dst \<mapsto> nd)"
  by (auto simp: os_rename_def lookup_def update_conv' delete_conv' split: if_splits)

lemma os_rename_Inr_iff:
  "(\<exists>d2. os_rename d src dst nd = Inr d2) \<longleftrightarrow> src \<notin> set (denied d) \<and> dst \<notin> set (denied d)"
  by (auto simp: os_rename_def)

lemma shutil_move_free:
  assumes "\<not> os_path_exists d dst"
  shows "shutil_move d src dst =
     (case lookup d src of
        None \<Rightarrow> Inl (FileNotFoundError, errno_msg ''[Errno 2] No such file or directory'' src)
      | Some nd \<Rightarrow> os_rename d src dst nd)"
  using assms by (simp add: shutil_move_def os_path_isdir_def os_path_exists_def split: option.splits)


lemma try_move_unfold:
  assumes "make_final_dest d destination info = Inr (fd, d1)"
      and "os_path_splitext (filename info) = (base, ext)"
  shows "try_move d destination info =
     (case shutil_move d1 (full_path info)
             (unique_dst d1 fd base ext (os_path_join fd (filename info)) 1) of
        Inl e \<Rightarrow> Inl (e, d1)
      | Inr d2 \<Rightarrow> Inr (d2, ''Moved '' @ display_path info @ '' to '' @ destination))"
  using assms by (simp add: try_move_def)

lemma try_move_to_free:
  assumes "make_final_dest d destination info = Inr (fd, d1)"
      and "os_path_splitext (filename info) = (base, ext)"
      and "unique_dst d1 fd base ext (os_path_join fd (filename info)) 1 = dst"
      and "\<not> os_path_exists d1 dst"
  shows "case try_move d destination info of
           Inl (e, d') \<Rightarrow> d' = d1 \<and> (lookup d1 (full_path info) = None
               \<or> full_path info \<in> set (denied d1) \<or> dst \<in> set (denied d1))
         | Inr (d2, line) \<Rightarrow>
             lookup d1 (full_path info) \<noteq> None
             \<and> lookup d2 dst = lookup d1 (full_path info)
             \<and> lookup d2 (full_path info) = None
             \<and> (\<forall>p. os_path_exists d1 p \<and> p \<noteq> full_path info \<longrightarrow> lookup d2 p = lookup d1 p)"
proof (cases "lookup d1 (full_path info)")
  case None
  then show ?thesis
    using assms by (simp add: try_move_unfold shutil_move_free)
next
  case (Some nd)
  have ne: "dst \<noteq> full_path info"
    using Some assms(4) by (auto simp: os_path_exists_def)
  show ?thesis
  proof (cases "os_rename d1 (full_path info) dst nd")
    case (Inl e)
    then have "full_path info \<in> set (denied d1) \<or> dst \<in> set (denied d1)"
      by (auto simp: os_rename_def split: if_splits)
    then show ?thesis
      using assms Some Inl by (simp add: try_move_unfold shutil_move_free)
  next
    case (Inr d2)
    have l: "lookup d2 = (lookup d1)(full_path info := None, dst \<mapsto> nd)"
      using Inr by (rule lookup_rename)
    have "\<forall>p. os_path_exists d1 p \<and> p \<noteq> full_path info \<longrightarrow> lookup d2 p = lookup d1 p"
      using l assms(4) by (auto simp: os_path_exists_def)
    moreover have "lookup d2 dst = lookup d1 (full_path info)" using l Some by simp
    moreover have "lookup d2 (full_path info) = None" using l ne by simp
    ultimately show ?thesis
      using assms Some Inr by (simp add: try_move_unfold shutil_move_free)
  qed
qed

subsection \<open>What a move does to the disk and to the session\<close>

lemma unique_dst_not_exists: "\<not> os_path_exists d (unique_dst d fd base ext p c)"
proof (cases "os_path_exists d p")
  case True
  from unique_dst_first_free [OF True, of c fd base ext] show ?thesis by auto
next
  case False
  then show ?thesis by (simp add: unique_dst_free)
qed


lemma os_makedirs_lookup:
  assumes "os_makedirs d p = Inr d1"
  shows "lookup d1 p = Some Directory" and "denied d1 = denied d"
    and "lookup d q \<noteq> None \<Longrightarrow> lookup d1 q = lookup d q"
    and "q \<noteq> p \<Longrightarrow> lookup d1 q = lookup d q"
  using assms
  by (auto simp: os_makedirs_def lookup_def map_add_def split: option.splits node.splits if_splits)


lemma make_final_dest_lookup:
  assumes "make_final_dest d destination info = Inr (fd, d1)"
  shows "lookup d q \<noteq> None \<Longrightarrow> lookup d1 q = lookup d q"
    and "fd = (if relative_path info \<noteq> [] then os_path_join destination (relative_path info) else destination)"
    and "relative_path info \<noteq> [] \<Longrightarrow> lookup d1 fd = Some Directory"
    and "q \<noteq> fd \<Longrightarrow> lookup d1 q = lookup d q"
    and "denied d1 = denied d"
proof -
  show "fd = (if relative_path info \<noteq> [] then os_path_join destination (relative_path info) else destination)"
    using assms by (auto simp: make_final_dest_def Let_def split: if_splits sum.splits)
  have "relative_path info = [] \<and> d1 = d \<or> os_makedirs d fd = Inr d1 \<and> relative_path info \<noteq> []"
    using assms by (auto simp: make_final_dest_def Let_def split: if_splits sum.splits)
  then consider "relative_path info = []" "d1 = d" | "os_makedirs d fd = Inr d1" "relative_path info \<noteq> []"
    by blast
  note c = this
  show "lookup d q \<noteq> None \<Longrightarrow> lookup d1 q = lookup d q"
    by (rule c) (simp_all add: os_makedirs_lookup(3))
  show "relative_path info \<noteq> [] \<Longrightarrow> lookup d1 fd = Some Directory"
    by (rule c) (simp_all add: os_makedirs_lookup(1))
  show "q \<noteq> fd \<Longrightarrow> lookup d1 q = lookup d q"
    by (rule c) (simp_all add: os_makedirs_lookup(4))
  show "denied d1 = denied d"
    by (rule c) (simp_all add: os_makedirs_lookup(2))
qed



lemma try_move_effect:
  assumes "make_final_dest d destination info = Inr (fd, d1)"
      and "os_path_splitext (filename info) = (base, ext)"
  shows "\<exists>dst. dst = unique_dst d1 fd base ext (os_path_join fd (filename info)) 1
           \<and> \<not> os_path_exists d1 dst
           \<and> (case try_move d destination info of
                Inl (e, d') \<Rightarrow> d' = d1 \<and> (lookup d1 (full_path info) = None
                    \<or> full_path info \<in> set (denied d1) \<or> dst \<in> set (denied d1))
              | Inr (d2, line) \<Rightarrow>
                  lookup d1 (full_path info) \<noteq> None
                  \<and> lookup d2 dst = lookup d1 (full_path info)
                  \<and> lookup d2 (full_path info) = None
                  \<and> (\<forall>p. os_path_exists d1 p \<and> p \<noteq> full_path info \<longrightarrow> lookup d2 p = lookup d1 p))"
  using try_move_to_free [OF assms refl unique_dst_not_exists] unique_dst_not_exists by blast





subsection \<open>Collisions\<close>



subsection \<open>Keep and reject\<close>





subsection \<open>The directory structure is kept\<close>

lemma unique_dst_shape:
  "unique_dst d fd base ext p c = p \<and> \<not> os_path_exists d p
   \<or> (\<exists>k\<ge>c. unique_dst d fd base ext p c = candidate fd base ext k) \<and> os_path_exists d p"
proof (cases "os_path_exists d p")
  case True
  from unique_dst_first_free [OF True, of c fd base ext] True show ?thesis by blast
next
  case False
  then show ?thesis by (simp add: unique_dst_free)
qed

lemma try_move_destination:
  assumes mv: "try_move d destination info = Inr (d2, line)"
      and src: "lookup d (full_path info) = Some (RegFile readable bytes)"
      and nm: "name_ok (filename info)"
      and fd: "fd = (if relative_path info \<noteq> [] then os_path_join destination (relative_path info)
                     else destination)"
  shows "(relative_path info \<noteq> [] \<longrightarrow> os_path_isdir d2 fd)
       \<and> (\<exists>dst. lookup d2 dst = Some (RegFile readable bytes)
             \<and> (dst = os_path_join fd (filename info)
                  \<or> (\<exists>k\<ge>1. dst = candidate fd (fst (os_path_splitext (filename info)))
                                   (snd (os_path_splitext (filename info))) k))
             \<and> (\<not> os_path_exists d (os_path_join fd (filename info))
                  \<longrightarrow> dst = os_path_join fd (filename info)))"
proof -
  let ?base = "fst (os_path_splitext (filename info))"
  let ?ext = "snd (os_path_splitext (filename info))"
  let ?target = "os_path_join fd (filename info)"
  obtain fd' d1 where mf: "make_final_dest d destination info = Inr (fd', d1)"
    using mv by (cases "make_final_dest d destination info") (auto simp: try_move_def)
  have fd': "fd' = fd" using make_final_dest_lookup(2) [OF mf] fd by simp
  have sp: "os_path_splitext (filename info) = (?base, ?ext)" by simp
  define dst where "dst = unique_dst d1 fd ?base ?ext ?target 1"
  from try_move_effect [OF mf sp] mv fd'
  have free: "\<not> os_path_exists d1 dst"
    and at: "lookup d2 dst = lookup d1 (full_path info)"
    and rest: "\<forall>p. os_path_exists d1 p \<and> p \<noteq> full_path info \<longrightarrow> lookup d2 p = lookup d1 p"
    by (auto simp: dst_def)
  have src1: "lookup d1 (full_path info) = Some (RegFile readable bytes)"
    using make_final_dest_lookup(1) [OF mf, of "full_path info"] src by simp
  have dir: "os_path_isdir d2 fd" if rel: "relative_path info \<noteq> []"
  proof -
    have d1fd: "lookup d1 fd = Some Directory"
      using make_final_dest_lookup(3) [OF mf rel] fd' by simp
    then have "fd \<noteq> full_path info" using src1 by auto
    moreover have "os_path_exists d1 fd" using d1fd by (simp add: os_path_exists_def)
    ultimately have "lookup d2 fd = lookup d1 fd" using rest by blast
    then show ?thesis using d1fd by (simp add: os_path_isdir_def)
  qed
  have shape: "dst = ?target \<and> \<not> os_path_exists d1 ?target
      \<or> (\<exists>k\<ge>1. dst = candidate fd ?base ?ext k) \<and> os_path_exists d1 ?target"
    unfolding dst_def by (rule unique_dst_shape)
  have "length fd < length ?target" using nm by (rule length_join_name)
  then have "?target \<noteq> fd" by auto
  then have "lookup d1 ?target = lookup d ?target"
    using make_final_dest_lookup(4) [OF mf, of ?target] fd' by simp
  then have "\<not> os_path_exists d ?target \<longrightarrow> dst = ?target"
    using shape by (auto simp: os_path_exists_def)
  moreover have "dst = ?target \<or> (\<exists>k\<ge>1. dst = candidate fd ?base ?ext k)"
    using shape by blast
  moreover have "lookup d2 dst = Some (RegFile readable bytes)" using at src1 by simp
  ultimately show ?thesis using dir by blast
qed

text \<open>
  C8. A move that succeeds, of a record whose file is a regular file and whose file name
  is a name of a directory entry. With a relative path, the directory
  \<open>destination/relative_path\<close> exists afterwards and the file is in it: at
  \<open>destination/relative_path/filename\<close> when that path was free, and at one of the
  paths \<open>destination/relative_path/base_k.ext\<close> of the collision loop otherwise. With
  an empty relative path the same holds with \<open>destination\<close> itself as the directory.
\<close>

theorem move_preserves_structure:
  assumes "try_move d destination info = Inr (d2, line)"
      and "lookup d (full_path info) = Some (RegFile readable bytes)"
      and "name_ok (filename info)"
  shows "(relative_path info \<noteq> [] \<longrightarrow>
            os_path_isdir d2 (os_path_join destination (relative_path info))
            \<and> (\<exists>dst. lookup d2 dst = Some (RegFile readable bytes)
                 \<and> (dst = os_path_join (os_path_join destination (relative_path info)) (filename info)
                      \<or> (\<exists>k\<ge>1. dst = candidate (os_path_join destination (relative_path info))
                                       (fst (os_path_splitext (filename info)))
                                       (snd (os_path_splitext (filename info))) k))
                 \<and> (\<not> os_path_exists d
                         (os_path_join (os_path_join destination (relative_path info)) (filename info))
                      \<longrightarrow> dst = os_path_join (os_path_join destination (relative_path info))
                                   (filename info))))
       \<and> (relative_path info = [] \<longrightarrow>
            (\<exists>dst. lookup d2 dst = Some (RegFile readable bytes)
                 \<and> (dst = os_path_join destination (filename info)
                      \<or> (\<exists>k\<ge>1. dst = candidate destination
                                       (fst (os_path_splitext (filename info)))
                                       (snd (os_path_splitext (filename info))) k))
                 \<and> (\<not> os_path_exists d (os_path_join destination (filename info))
                      \<longrightarrow> dst = os_path_join destination (filename info))))"
proof (cases "relative_path info = []")
  case True
  then show ?thesis
    using try_move_destination [OF assms, of destination] by simp
next
  case False
  then show ?thesis
    using try_move_destination [OF assms, of "os_path_join destination (relative_path info)"] by simp
qed

theorem move_preserves_structure_witness:
  "try_move \<lparr>entries = [(''/src/sub/c.jpg'', RegFile True ''C''), (''/keep'', Directory)], denied = []\<rparr>
     ''/keep'' \<lparr>filename = ''c.jpg'', relative_path = ''sub'', full_path = ''/src/sub/c.jpg''\<rparr>
   = Inr (\<lparr>entries = [(''/keep'', Directory), (''/keep/sub'', Directory),
                        (''/keep/sub/c.jpg'', RegFile True ''C'')], denied = []\<rparr>,
          ''Moved sub/c.jpg to /keep'')
   \<and> name_ok ''c.jpg''
   \<and> os_path_isdir \<lparr>entries = [(''/keep'', Directory), (''/keep/sub'', Directory),
                        (''/keep/sub/c.jpg'', RegFile True ''C'')], denied = []\<rparr> ''/keep/sub''
   \<and> lookup \<lparr>entries = [(''/keep'', Directory), (''/keep/sub'', Directory),
                        (''/keep/sub/c.jpg'', RegFile True ''C'')], denied = []\<rparr> ''/keep/sub/c.jpg''
       = Some (RegFile True ''C'')"
proof -
  let ?d = "\<lparr>entries = [(''/src/sub/c.jpg'', RegFile True ''C''), (''/keep'', Directory)], denied = []\<rparr>"
  let ?i = "\<lparr>filename = ''c.jpg'', relative_path = ''sub'', full_path = ''/src/sub/c.jpg''\<rparr>"
  let ?d2 = "\<lparr>entries = [(''/keep'', Directory), (''/keep/sub'', Directory),
                        (''/keep/sub/c.jpg'', RegFile True ''C'')], denied = []\<rparr>"
  have tm: "try_move ?d ''/keep'' ?i = Inr (?d2, ''Moved sub/c.jpg to /keep'')"
    by code_simp
  have src: "lookup ?d (full_path ?i) = Some (RegFile True ''C'')" by (simp add: lookup_def)
  have nm: "name_ok (filename ?i)" by (simp add: name_ok_def)
  have j: "os_path_join ''/keep'' ''sub'' = ''/keep/sub''"
    "os_path_join ''/keep/sub'' ''c.jpg'' = ''/keep/sub/c.jpg''"
    by code_simp+
  have free: "\<not> os_path_exists ?d ''/keep/sub/c.jpg''"
    by (simp add: os_path_exists_def lookup_def)
  from move_preserves_structure [OF tm src nm] j free
  have "os_path_isdir ?d2 ''/keep/sub'' \<and> lookup ?d2 ''/keep/sub/c.jpg'' = Some (RegFile True ''C'')"
    by auto
  then show ?thesis using tm nm by simp
qed

subsection \<open>Navigation\<close>








end
